theory Spec2Isabelle
  imports Main "HOL-Library.Sublist" "HOL-Library.Char_ord" "HOL-Library.List_Lexorder"
begin

section \<open>Values exchanged with the backend\<close>

text \<open>
  The portal exchanges JSON with the backend. A parsed JSON value is modelled by the datatype
  below; an object is the list of its own properties, looked up with \<open>map_of\<close>. JSON numbers
  are restricted to integers (no claim depends on a fraction). JavaScript's \<open>undefined\<close> is
  \<open>None\<close> of an option type.
\<close>

datatype json =
    JNull
  | JBool bool
  | JNum int
  | JStr string
  | JArr "json list"
  | JObj "(string \<times> json) list"

text \<open>The name under which a JavaScript value is falsy or truthy (\<open>if (v)\<close>, \<open>a || b\<close>).\<close>

fun truthy :: "json option \<Rightarrow> bool" where
  "truthy None = False"
| "truthy (Some JNull) = False"
| "truthy (Some (JBool b)) = b"
| "truthy (Some (JNum n)) = (n \<noteq> 0)"
| "truthy (Some (JStr s)) = (s \<noteq> [])"
| "truthy (Some (JArr xs)) = True"
| "truthy (Some (JObj kvs)) = True"

text \<open>Truthiness of an optional string argument (\<open>clientId?: string\<close>).\<close>

definition truthy_str :: "string option \<Rightarrow> bool" where
  "truthy_str s = (case s of None \<Rightarrow> False | Some t \<Rightarrow> t \<noteq> [])"

text \<open>\<open>Array.prototype.join\<close> on strings.\<close>

fun join :: "string \<Rightarrow> string list \<Rightarrow> string" where
  "join sep [] = []"
| "join sep [x] = x"
| "join sep (x # y # ys) = x @ sep @ join sep (y # ys)"

section \<open>lib/api.ts\<close>

text \<open>
  \<open>const API_URL = process.env.NEXT_PUBLIC_API_URL || "http://localhost:8000"\<close>; the
  environment variable is a parameter of the model.
\<close>

definition API_URL :: "string option \<Rightarrow> string" where
  "API_URL env = (if truthy_str env then the env else ''http://localhost:8000'')"

datatype http_method = GET | POST

text \<open>
  A request as \<open>fetch\<close> receives it. The body is kept as the JSON value handed to
  \<open>JSON.stringify\<close>.
\<close>

record request =
  req_url :: string
  req_method :: http_method
  req_headers :: "(string \<times> string) list"
  req_body :: "json option"

text \<open>
  \<open>triggerAssessment\<close>: the payload starts as \<open>{tenant_id, subscription_id}\<close>; the two
  credential fields are added under \<open>if (clientId && clientSecret)\<close>.
\<close>

definition assessment_payload ::
  "string \<Rightarrow> string \<Rightarrow> string option \<Rightarrow> string option \<Rightarrow> (string \<times> json) list" where
  "assessment_payload tenantId subscriptionId clientId clientSecret =
     [(''tenant_id'', JStr tenantId), (''subscription_id'', JStr subscriptionId)] @
     (if truthy_str clientId \<and> truthy_str clientSecret
      then [(''client_id'', JStr (the clientId)), (''client_secret'', JStr (the clientSecret))]
      else [])"

definition triggerAssessment_request ::
  "string option \<Rightarrow> string \<Rightarrow> string \<Rightarrow> string option \<Rightarrow> string option \<Rightarrow> request" where
  "triggerAssessment_request env tenantId subscriptionId clientId clientSecret =
     \<lparr> req_url = API_URL env @ ''/api/v1/assess'',
       req_method = POST,
       req_headers = [(''Content-Type'', ''application/json'')],
       req_body = Some (JObj (assessment_payload tenantId subscriptionId clientId clientSecret)) \<rparr>"


text \<open>
  A response as \<open>handleResponse\<close> reads it: the \<open>ok\<close> flag, the status text, and what
  \<open>res.json()\<close> resolves to (\<open>None\<close> when the body is not JSON and the promise rejects).
\<close>

record response =
  res_ok :: bool
  res_statusText :: string
  res_json :: "json option"

text \<open>
  What is thrown: an \<open>Error\<close> with its message, the \<open>SyntaxError\<close> of \<open>res.json()\<close>, or
  a \<open>TypeError\<close> (\<open>fetch\<close> rejects with one when the network fails, and reading a property
  of \<open>null\<close> throws one).
\<close>

datatype exn = Error string | SyntaxError | TypeError

text \<open>
  Reading the property \<open>k\<close> of a parsed value that is not \<open>null\<close>; only the names \<open>detail\<close>,
  \<open>message\<close>, \<open>job_id\<close> and \<open>plan_id\<close> are read, which no array, string, number or boolean
  has.
\<close>

fun get_prop :: "json \<Rightarrow> string \<Rightarrow> json option" where
  "get_prop (JObj kvs) k = map_of kvs k"
| "get_prop v k = None"

text \<open>
  \<open>errorData.detail || errorData.message || JSON.stringify(errorData)\<close>. \<open>JSON.stringify\<close> is
  the parameter \<open>stringify\<close>.
\<close>

definition errorMsg_of :: "(json \<Rightarrow> string) \<Rightarrow> json \<Rightarrow> json" where
  "errorMsg_of stringify errorData =
     (if truthy (get_prop errorData ''detail'') then the (get_prop errorData ''detail'')
      else if truthy (get_prop errorData ''message'') then the (get_prop errorData ''message'')
      else JStr (stringify errorData))"

text \<open>
  \<open>new Error(errorMsg)\<close> converts its argument to a string: a string is taken as it is,
  any other value goes through the platform's conversion, the parameter \<open>toString\<close>.
\<close>

definition to_message :: "(json \<Rightarrow> string) \<Rightarrow> json \<Rightarrow> string" where
  "to_message toString v = (case v of JStr m \<Rightarrow> m | _ \<Rightarrow> toString v)"

text \<open>
  \<open>handleResponse\<close>. In the \<open>!res.ok\<close> branch everything thrown inside the \<open>try\<close> ends in
  \<open>errorMsg = res.statusText\<close>: a body that is not JSON, and the body \<open>null\<close>, whose property
  \<open>detail\<close> cannot be read. In the other branch the promise of \<open>res.json()\<close> is returned.
\<close>

definition handleResponse :: "(json \<Rightarrow> string) \<Rightarrow> (json \<Rightarrow> string) \<Rightarrow> response \<Rightarrow> exn + json" where
  "handleResponse stringify toString res =
     (if \<not> res_ok res
      then Inl (Error (case res_json res of
                         None \<Rightarrow> res_statusText res
                       | Some JNull \<Rightarrow> res_statusText res
                       | Some errorData \<Rightarrow> to_message toString (errorMsg_of stringify errorData)))
      else (case res_json res of None \<Rightarrow> Inl SyntaxError | Some v \<Rightarrow> Inr v))"

text \<open>
  \<open>await fetch(...)\<close> followed by \<open>return handleResponse(res)\<close>. The server is the parameter
  \<open>fetch\<close>. The result is paired with the list of requests sent, in order.
\<close>

definition fetch_and_handle ::
  "(json \<Rightarrow> string) \<Rightarrow> (json \<Rightarrow> string) \<Rightarrow> (request \<Rightarrow> exn + response) \<Rightarrow> request
     \<Rightarrow> (exn + json) \<times> request list" where
  "fetch_and_handle stringify toString fetch rq =
     (case fetch rq of
        Inl e \<Rightarrow> (Inl e, [rq])
      | Inr res \<Rightarrow> (handleResponse stringify toString res, [rq]))"

definition triggerAssessment ::
  "(json \<Rightarrow> string) \<Rightarrow> (json \<Rightarrow> string) \<Rightarrow> (request \<Rightarrow> exn + response) \<Rightarrow> string option
     \<Rightarrow> string \<Rightarrow> string \<Rightarrow> string option \<Rightarrow> string option \<Rightarrow> (exn + json) \<times> request list" where
  "triggerAssessment stringify toString fetch env tenantId subscriptionId clientId clientSecret =
     fetch_and_handle stringify toString fetch
       (triggerAssessment_request env tenantId subscriptionId clientId clientSecret)"

definition getJobStatus_request :: "string option \<Rightarrow> string \<Rightarrow> request" where
  "getJobStatus_request env jobId =
     \<lparr> req_url = API_URL env @ ''/api/v1/jobs/'' @ jobId, req_method = GET,
       req_headers = [], req_body = None \<rparr>"

definition getJobStatus ::
  "(json \<Rightarrow> string) \<Rightarrow> (json \<Rightarrow> string) \<Rightarrow> (request \<Rightarrow> exn + response) \<Rightarrow> string option
     \<Rightarrow> string \<Rightarrow> (exn + json) \<times> request list" where
  "getJobStatus stringify toString fetch env jobId =
     fetch_and_handle stringify toString fetch (getJobStatus_request env jobId)"

definition triggerMigration_request ::
  "string option \<Rightarrow> string \<Rightarrow> string \<Rightarrow> string \<Rightarrow> string list \<Rightarrow> request" where
  "triggerMigration_request env jobId sourceRg targetRgId resources =
     \<lparr> req_url = API_URL env @ ''/api/v1/migrate'',
       req_method = POST,
       req_headers = [(''Content-Type'', ''application/json'')],
       req_body = Some (JObj [(''job_id'', JStr jobId),
                             (''source_resource_group'', JStr sourceRg),
                             (''target_resource_group_id'', JStr targetRgId),
                             (''resources'', JArr (map JStr resources))]) \<rparr>"

definition triggerMigration ::
  "(json \<Rightarrow> string) \<Rightarrow> (json \<Rightarrow> string) \<Rightarrow> (request \<Rightarrow> exn + response) \<Rightarrow> string option
     \<Rightarrow> string \<Rightarrow> string \<Rightarrow> string \<Rightarrow> string list \<Rightarrow> (exn + json) \<times> request list" where
  "triggerMigration stringify toString fetch env jobId sourceRg targetRgId resources =
     fetch_and_handle stringify toString fetch
       (triggerMigration_request env jobId sourceRg targetRgId resources)"

definition getMigrationPlan_request :: "string option \<Rightarrow> string \<Rightarrow> request" where
  "getMigrationPlan_request env planId =
     \<lparr> req_url = API_URL env @ ''/api/v1/plans/'' @ planId, req_method = GET,
       req_headers = [], req_body = None \<rparr>"

definition getMigrationPlan ::
  "(json \<Rightarrow> string) \<Rightarrow> (json \<Rightarrow> string) \<Rightarrow> (request \<Rightarrow> exn + response) \<Rightarrow> string option
     \<Rightarrow> string \<Rightarrow> (exn + json) \<times> request list" where
  "getMigrationPlan stringify toString fetch env planId =
     fetch_and_handle stringify toString fetch (getMigrationPlan_request env planId)"

text \<open>The two members of \<open>api\<close> that only build a URL.\<close>

definition getExportUrl :: "string option \<Rightarrow> string \<Rightarrow> string" where
  "getExportUrl env jobId = API_URL env @ ''/api/v1/jobs/'' @ jobId @ ''/export''"

definition getARMExportUrl :: "string option \<Rightarrow> string \<Rightarrow> string" where
  "getARMExportUrl env jobId = API_URL env @ ''/api/v1/jobs/'' @ jobId @ ''/export/arm''"



section \<open>The inventory table and the job page\<close>

record AzureResource =
  r_id :: string
  r_name :: string
  r_type :: string
  r_location :: string
  r_resource_group :: string

record InventorySnapshot =
  subscription_id :: string
  total_resources :: int
  resources :: "AzureResource list"
  resource_groups :: "(string \<times> string) list"

datatype job_status = PENDING | IN_PROGRESS | COMPLETED | FAILED

text \<open>
  The blocker map \<open>Record<string, string[]>\<close> is the list of its entries; \<open>blockers[k]\<close> is
  \<open>map_of\<close> (resource ids are paths starting with \<open>/\<close>, never a name that objects inherit),
  \<open>Object.keys\<close> lists each key once.
\<close>

type_synonym blocker_map = "(string \<times> string list) list"

record AssessmentJob =
  job_id :: string
  tenant_id :: string
  status :: job_status
  inventory_snapshot :: "InventorySnapshot option"
  blockers :: "blocker_map option"

definition Object_keys :: "('k \<times> 'v) list \<Rightarrow> 'k list" where
  "Object_keys obj = remdups (map fst obj)"

text \<open>One row of \<open>InventoryTable\<close>. \<open>String.prototype.toLowerCase\<close> is the parameter \<open>lower\<close>.\<close>

definition blockersList :: "blocker_map \<Rightarrow> AzureResource \<Rightarrow> string list" where
  "blockersList bm res = (case map_of bm (r_id res) of None \<Rightarrow> [] | Some l \<Rightarrow> l)"

definition isBlocked :: "blocker_map \<Rightarrow> AzureResource \<Rightarrow> bool" where
  "isBlocked bm res = (length (blockersList bm res) > 0)"

definition combinedIssues :: "(string \<Rightarrow> string) \<Rightarrow> blocker_map \<Rightarrow> AzureResource \<Rightarrow> string" where
  "combinedIssues lower bm res = lower (join '' '' (blockersList bm res))"

definition isUnknown :: "(string \<Rightarrow> string) \<Rightarrow> blocker_map \<Rightarrow> AzureResource \<Rightarrow> bool" where
  "isUnknown lower bm res =
     sublist ''no specific official documentation'' (combinedIssues lower bm res)"

datatype status_cell = Yes | No | Dash

definition renderStatus :: "(string \<Rightarrow> string) \<Rightarrow> blocker_map \<Rightarrow> AzureResource \<Rightarrow> status_cell" where
  "renderStatus lower bm res =
     (if isBlocked bm res then (if isUnknown lower bm res then Dash else No) else Yes)"


text \<open>The counters of \<open>JobPage\<close>.\<close>

definition totalResources :: "AssessmentJob \<Rightarrow> int" where
  "totalResources job = (case inventory_snapshot job of None \<Rightarrow> 0 | Some snap \<Rightarrow> total_resources snap)"

definition blockersCount :: "AssessmentJob \<Rightarrow> int" where
  "blockersCount job = (case blockers job of None \<Rightarrow> 0 | Some bm \<Rightarrow> int (length (Object_keys bm)))"

definition readyCount :: "AssessmentJob \<Rightarrow> int" where
  "readyCount job = totalResources job - blockersCount job"

text \<open>The table as the job page renders it: one status cell per resource of the snapshot.\<close>

definition InventoryTable :: "(string \<Rightarrow> string) \<Rightarrow> AssessmentJob \<Rightarrow> status_cell list" where
  "InventoryTable lower job =
     (case inventory_snapshot job of
        None \<Rightarrow> []
      | Some snap \<Rightarrow> map (renderStatus lower (case blockers job of None \<Rightarrow> [] | Some bm \<Rightarrow> bm))
                       (resources snap))"

text \<open>A lower-casing of the ASCII letters, for evaluation.\<close>

definition lower_ascii :: "string \<Rightarrow> string" where
  "lower_ascii s = map (\<lambda>c. if CHR ''A'' \<le> c \<and> c \<le> CHR ''Z''
                             then char_of (of_char c + (32::nat)) else c) s"

text \<open>
  Two jobs over the same one-resource snapshot: in the first the blocker map holds the
  resource with an empty reason list, in the second with the reason the reasoning fallback
  leaves when it finds no documentation.
\<close>

definition vnet :: AzureResource where
  "vnet = \<lparr> r_id = ''/subscriptions/s1/resourceGroups/rg/providers/Microsoft.Network/virtualNetworks/v'',
            r_name = ''v'', r_type = ''Microsoft.Network/virtualNetworks'',
            r_location = ''westeurope'', r_resource_group = ''rg'' \<rparr>"

definition snap1 :: InventorySnapshot where
  "snap1 = \<lparr> subscription_id = ''s1'', total_resources = 1, resources = [vnet],
             resource_groups = [(''rg'', ''westeurope'')] \<rparr>"

definition job_empty_entry :: AssessmentJob where
  "job_empty_entry = \<lparr> job_id = ''j1'', tenant_id = ''t1'', status = COMPLETED,
                       inventory_snapshot = Some snap1, blockers = Some [(r_id vnet, [])] \<rparr>"



section \<open>The login page\<close>

text \<open>
  The saved logins of the login page (\<open>interface SavedLogin\<close>) and the fields of its form,
  which the component keeps as state variables (here with the prefix \<open>f_\<close>).
\<close>

datatype login_mode = Auto | Explicit

record SavedLogin =
  sl_alias :: string
  sl_tenantId :: string
  sl_subId :: string
  sl_mode :: login_mode
  sl_clientId :: "string option"
  sl_clientSecret :: "string option"

record login_form =
  f_tenantId :: string
  f_subId :: string
  f_alias :: string
  f_loginMode :: login_mode
  f_clientId :: string
  f_clientSecret :: string

fun mode_string :: "login_mode \<Rightarrow> string" where
  "mode_string Auto = ''auto''"
| "mode_string Explicit = ''explicit''"

text \<open>\<open>Array.prototype.findIndex\<close>; \<open>None\<close> stands for the result \<open>-1\<close>.\<close>

fun findIndex :: "('a \<Rightarrow> bool) \<Rightarrow> 'a list \<Rightarrow> nat option" where
  "findIndex P [] = None"
| "findIndex P (x # xs) = (if P x then Some 0 else map_option Suc (findIndex P xs))"

text \<open>
  \<open>URLSearchParams.toString()\<close>: the pairs in insertion order, joined by \<open>&\<close>. The
  percent-encoding of a name or value is a platform function, the parameter \<open>enc\<close>.
\<close>

definition URLSearchParams_toString :: "(string \<Rightarrow> string) \<Rightarrow> (string \<times> string) list \<Rightarrow> string" where
  "URLSearchParams_toString enc ps = join ''&'' (map (\<lambda>(k, v). enc k @ ''='' @ enc v) ps)"

text \<open>
  \<open>handleConnect\<close>, first half: the login saved under \<open>alias.trim()\<close>. \<open>String.prototype.trim\<close>
  is the parameter \<open>trim\<close>.
\<close>

definition newLogin :: "(string \<Rightarrow> string) \<Rightarrow> login_form \<Rightarrow> SavedLogin" where
  "newLogin trim f =
     \<lparr> sl_alias = trim (f_alias f), sl_tenantId = f_tenantId f, sl_subId = f_subId f,
       sl_mode = f_loginMode f, sl_clientId = Some (f_clientId f),
       sl_clientSecret = Some (f_clientSecret f) \<rparr>"

definition updatedLogins :: "(string \<Rightarrow> string) \<Rightarrow> login_form \<Rightarrow> SavedLogin list \<Rightarrow> SavedLogin list" where
  "updatedLogins trim f savedLogins =
     (case findIndex (\<lambda>l. sl_alias l = sl_alias (newLogin trim f)) savedLogins of
        Some existingIndex \<Rightarrow> savedLogins[existingIndex := newLogin trim f]
      | None \<Rightarrow> savedLogins @ [newLogin trim f])"

text \<open>\<open>handleConnect\<close>, second half: the query parameters and the URL given to the router.\<close>

definition connect_params :: "login_form \<Rightarrow> (string \<times> string) list" where
  "connect_params f =
     [(''tenantId'', f_tenantId f),
      (''subId'', f_subId f),
      (''mode'', mode_string (f_loginMode f)),
      (''clientId'', if f_loginMode f = Explicit then f_clientId f else []),
      (''clientSecret'', if f_loginMode f = Explicit then f_clientSecret f else [])]"

text \<open>
  The effects of one run of \<open>handleConnect\<close>: the saved-logins state afterwards, the value
  written to local storage under \<open>azure_migration_logins\<close> (if any) and the URL pushed.
\<close>

record connect_result =
  cr_savedLogins :: "SavedLogin list"
  cr_stored :: "SavedLogin list option"
  cr_pushed :: string

definition handleConnect ::
  "(string \<Rightarrow> string) \<Rightarrow> (string \<Rightarrow> string) \<Rightarrow> login_form \<Rightarrow> SavedLogin list \<Rightarrow> connect_result" where
  "handleConnect trim enc f savedLogins =
     (let url = ''/dashboard?'' @ URLSearchParams_toString enc (connect_params f) in
      if trim (f_alias f) \<noteq> []
      then \<lparr> cr_savedLogins = updatedLogins trim f savedLogins,
             cr_stored = Some (updatedLogins trim f savedLogins),
             cr_pushed = url \<rparr>
      else \<lparr> cr_savedLogins = savedLogins, cr_stored = None, cr_pushed = url \<rparr>)"

text \<open>A concrete \<open>trim\<close> for evaluation: it strips the ASCII space from both ends.\<close>

definition trim_spaces :: "string \<Rightarrow> string" where
  "trim_spaces s = rev (dropWhile (\<lambda>c. c = CHR '' '') (rev (dropWhile (\<lambda>c. c = CHR '' '') s)))"

text \<open>A form and a saved-logins list used to run \<open>handleConnect\<close> on.\<close>

definition demo_form :: login_form where
  "demo_form = \<lparr> f_tenantId = ''t1'', f_subId = ''s1'', f_alias = '' prod '',
                  f_loginMode = Explicit, f_clientId = ''app'', f_clientSecret = ''pw'' \<rparr>"

definition demo_saved :: "SavedLogin list" where
  "demo_saved =
     [\<lparr> sl_alias = ''dev'', sl_tenantId = ''t0'', sl_subId = ''s0'', sl_mode = Auto,
        sl_clientId = None, sl_clientSecret = None \<rparr>,
      \<lparr> sl_alias = ''prod'', sl_tenantId = ''t9'', sl_subId = ''s9'', sl_mode = Auto,
        sl_clientId = Some [], sl_clientSecret = Some [] \<rparr>]"


text \<open>
  The count the specification asks for under "Ready to Move": the resources of the snapshot
  whose entry in the blocker map is absent or empty.
\<close>

definition spec_ready_count :: "AssessmentJob \<Rightarrow> int" where
  "spec_ready_count job =
     (case inventory_snapshot job of
        None \<Rightarrow> 0
      | Some snap \<Rightarrow>
          int (length (filter (\<lambda>res. blockersList (case blockers job of None \<Rightarrow> [] | Some bm \<Rightarrow> bm) res = [])
                              (resources snap))))"



definition res_job :: response where
  "res_job = \<lparr> res_ok = True, res_statusText = ''OK'',
      res_json = Some (JObj [(''job_id'', JStr ''j1'')]) \<rparr>"

definition no_text :: "json \<Rightarrow> string" where
  "no_text v = []"




definition res_array :: response where
  "res_array = \<lparr> res_ok = True, res_statusText = ''OK'', res_json = Some (JArr []) \<rparr>"


definition array_server :: "request \<Rightarrow> exn + response" where
  "array_server rq = Inr res_array"

text \<open>A server that answers every request with \<open>res_job\<close>.\<close>

definition job_server :: "request \<Rightarrow> exn + response" where
  "job_server rq = Inr res_job"

section \<open>The plan compiler and the executor\<close>

text \<open>
  The portal only reads plans (\<open>interface MigrationPlan\<close>: \<open>ordered_batches\<close>, \<open>execution_log\<close>,
  \<open>status\<close>). The compiler and the executor that produce them belong to the backend, whose
  sources are not part of the portal. They are modelled here from the specification,
  sections 3, 4.5 and 4.6, over any type of resource ids with a linear order (for strings,
  the lexical one).
\<close>

text \<open>Modelled from the spec: the compiler's errors (section 7); the backend is missing.\<close>

datatype compile_error = CycleDetected | UnknownResource | ValidationRejected string

text \<open>
  Modelled from the spec: the answer of the pre-flight validation call,
  \<open>validateRelocation(resourceIds, targetScope) -> Accept|Reject(detail)\<close>; the backend is
  missing.
\<close>

datatype validation = Accept | Reject string

text \<open>
  Modelled from the spec: the status of a plan (sections 4.5 and 4.6); the backend is missing.
\<close>

datatype plan_status = VALIDATED | PLAN_COMPLETED | PARTIALLY_FAILED

text \<open>
  Modelled from the spec: "restrict the dependency graph to the selection". An edge
  \<open>(from, to)\<close> means that \<open>from\<close> is relocated before \<open>to\<close>. The backend's graph code is
  missing.
\<close>

definition restrict_edges :: "('a \<times> 'a) list \<Rightarrow> 'a list \<Rightarrow> ('a \<times> 'a) list" where
  "restrict_edges es sel = filter (\<lambda>(f, t). f \<in> set sel \<and> t \<in> set sel) es"

text \<open>
  Modelled from the spec: the in-degree of a resource among the resources still to be
  assigned; the backend's leveling is missing.
\<close>

definition in_degree :: "('a \<times> 'a) list \<Rightarrow> 'a list \<Rightarrow> 'a \<Rightarrow> nat" where
  "in_degree es remaining n = length (filter (\<lambda>(f, t). t = n \<and> f \<in> set remaining) es)"

text \<open>
  Modelled from the spec: "resources with in-degree zero in the restricted graph"; the
  backend's leveling is missing.
\<close>

definition ready :: "('a \<times> 'a) list \<Rightarrow> 'a list \<Rightarrow> 'a list" where
  "ready es remaining = filter (\<lambda>n. in_degree es remaining n = 0) remaining"

text \<open>
  Modelled from the spec: the Kahn-style leveling of section 4.5, the backend's own being
  missing. "Resources with in-degree zero in the restricted graph form batch 0; remove
  them, repeat", with each batch in the order of the ids. The result is the list of batches
  and the resources that remain unassigned when no resource has in-degree zero.
\<close>

function leveling :: "('a::linorder \<times> 'a) list \<Rightarrow> 'a list \<Rightarrow> 'a list list \<times> 'a list" where
  "leveling es remaining =
     (if ready es remaining = [] then ([], remaining)
      else (case leveling es (filter (\<lambda>n. n \<notin> set (ready es remaining)) remaining) of
              (bs, unassigned) \<Rightarrow> (sort (ready es remaining) # bs, unassigned)))"
  by pat_completeness auto
termination
proof (relation "measure (\<lambda>(es, remaining). length remaining)")
  show "wf (measure (\<lambda>(es :: ('a \<times> 'a) list, remaining :: 'a list). length remaining))"
    by simp
next
  fix es :: "('a \<times> 'a) list" and remaining :: "'a list"
  assume "ready es remaining \<noteq> []"
  then obtain x where "x \<in> set (ready es remaining)"
    by (cases "ready es remaining") auto
  then have "x \<in> set remaining" "\<not> x \<notin> set (ready es remaining)"
    by (auto simp: ready_def)
  then have "length (filter (\<lambda>n. n \<notin> set (ready es remaining)) remaining) < length remaining"
    by (rule length_filter_less)
  then show "((es, filter (\<lambda>n. n \<notin> set (ready es remaining)) remaining), (es, remaining))
               \<in> measure (\<lambda>(es, remaining). length remaining)"
    by simp
qed

declare leveling.simps [simp del]

text \<open>
  Modelled from the spec: the part of an InventorySnapshot that the compiler reads, the ids
  of its resources and its dependency edges (section 3); the backend's record is missing.
\<close>

record 'a Snapshot =
  snap_resources :: "'a list"
  snap_edges :: "('a \<times> 'a) list"

text \<open>
  Modelled from the spec: a MigrationPlan as the compiler creates it (section 3): the
  reference to its job, the ordered batches and the status; the backend's record is missing.
\<close>

record 'a plan =
  p_job_id :: string
  ordered_batches :: "'a list list"
  p_status :: plan_status

text \<open>
  Modelled from the spec: \<open>compile(job snapshot, resource-id selection, target-scope
  descriptor)\<close> of section 4.5, the backend's compiler being missing. The dependency graph
  is restricted to the selection and leveled; resources left unassigned by the leveling are
  a cycle, \<open>CycleDetected\<close>, whatever else the selection holds (section 8: a selection
  containing a dependency cycle "always yields \<open>CycleDetected\<close>"). A selection that names an
  id absent from the snapshot fails with \<open>UnknownResource\<close>. Then the full ordered resource
  list goes to the pre-flight validation, the parameter \<open>validateRelocation\<close>, whose
  rejection is \<open>ValidationRejected\<close> with its detail; otherwise the plan is created as
  \<open>VALIDATED\<close>.
\<close>

definition compile ::
  "string \<Rightarrow> ('a::linorder) Snapshot \<Rightarrow> 'a list \<Rightarrow> 't \<Rightarrow> ('a list \<Rightarrow> 't \<Rightarrow> validation)
     \<Rightarrow> compile_error + 'a plan" where
  "compile jid snap selection target validateRelocation =
     (case leveling (restrict_edges (snap_edges snap) selection) (remdups selection) of
        (bs, unassigned) \<Rightarrow>
          if unassigned \<noteq> [] then Inl CycleDetected
          else if \<not> set selection \<subseteq> set (snap_resources snap) then Inl UnknownResource
          else (case validateRelocation (concat bs) target of
                  Reject detail \<Rightarrow> Inl (ValidationRejected detail)
                | Accept \<Rightarrow> Inr \<lparr> p_job_id = jid, ordered_batches = bs, p_status = VALIDATED \<rparr>))"

text \<open>The index of the first batch that holds a resource (the number of batches if none does).\<close>

definition batch_of :: "'a list list \<Rightarrow> 'a \<Rightarrow> nat" where
  "batch_of bs x = length (takeWhile (\<lambda>b. x \<notin> set b) bs)"

text \<open>
  Modelled from the spec: the per-resource outcomes \<open>MOVED\<close>, \<open>FAILED\<close>, \<open>TIMED_OUT\<close> of section
  4.6; the backend's executor is missing. The outcome \<open>FAILED\<close> is written \<open>MOVE_FAILED\<close>,
  the name \<open>FAILED\<close> being a job status of the portal.
\<close>

datatype outcome = MOVED | MOVE_FAILED | TIMED_OUT

text \<open>
  Modelled from the spec: the state of an execution (section 4.6), the backend's executor
  being missing: the index of the batch that has been submitted and is being waited for,
  and the execution log, to which outcomes are appended.
\<close>

record 'a exec_state =
  current :: nat
  execution_log :: "('a \<times> outcome) list"

text \<open>Modelled from the spec: an execution starts at batch 0 with an empty log; the backend's executor is missing.\<close>

definition exec_init :: "'a exec_state" where
  "exec_init = \<lparr> current = 0, execution_log = [] \<rparr>"

text \<open>
  Modelled from the spec: the steps of the executor (sections 4.6 and 5), the backend's
  executor being missing. Within the current batch the moves run concurrently: an
  unresolved resource of the batch may report any outcome, in any order. "The executor
  waits for the entire batch to resolve (success or failure per resource) before admitting
  the next batch", and a failure "does prevent subsequent batches from starting": the next
  batch is admitted only when every resource of the current one is \<open>MOVED\<close>.
\<close>

inductive exec_step :: "'a list list \<Rightarrow> 'a exec_state \<Rightarrow> 'a exec_state \<Rightarrow> bool"
  for bs :: "'a list list" where
  resolve:
    "current s < length bs \<Longrightarrow> r \<in> set (bs ! current s) \<Longrightarrow>
     map_of (execution_log s) r = None \<Longrightarrow>
     exec_step bs s (s\<lparr>execution_log := execution_log s @ [(r, oc)]\<rparr>)"
| advance:
    "current s < length bs \<Longrightarrow>
     \<forall>r \<in> set (bs ! current s). map_of (execution_log s) r = Some MOVED \<Longrightarrow>
     exec_step bs s (s\<lparr>current := Suc (current s)\<rparr>)"

text \<open>
  Modelled from the spec: what the execution log says of a resource: resolved with an
  outcome, submitted with its batch and in flight, or "not attempted"; the backend's
  executor is missing.
\<close>

datatype resource_state = NotAttempted | InFlight | Resolved outcome

definition state_of :: "'a list list \<Rightarrow> 'a exec_state \<Rightarrow> 'a \<Rightarrow> resource_state" where
  "state_of bs s r =
     (case map_of (execution_log s) r of
        Some oc \<Rightarrow> Resolved oc
      | None \<Rightarrow> if current s < length bs \<and> r \<in> set (bs ! current s) then InFlight
                else NotAttempted)"

text \<open>
  The invariant of an execution: only resources of batches up to the current one are in
  the log, and every resource of a batch before the current one is \<open>MOVED\<close>.
\<close>

definition exec_inv :: "'a list list \<Rightarrow> 'a exec_state \<Rightarrow> bool" where
  "exec_inv bs s \<longleftrightarrow>
     current s \<le> length bs
     \<and> (\<forall>r oc. map_of (execution_log s) r = Some oc
           \<longrightarrow> (\<exists>k \<le> current s. k < length bs \<and> r \<in> set (bs ! k)))
     \<and> (\<forall>k < current s. \<forall>r \<in> set (bs ! k). map_of (execution_log s) r = Some MOVED)"

text \<open>
  Scenario A of the specification (a network, a disk and a virtual machine that depends on
  both), a snapshot with a dependency cycle, and a validation that accepts.
\<close>

definition always_accept :: "string list \<Rightarrow> string \<Rightarrow> validation" where
  "always_accept ids target = Accept"

definition snap_abc :: "string Snapshot" where
  "snap_abc = \<lparr> snap_resources = [''vm'', ''net'', ''disk''],
                snap_edges = [(''net'', ''vm''), (''disk'', ''vm'')] \<rparr>"

definition snap_cyclic :: "string Snapshot" where
  "snap_cyclic = \<lparr> snap_resources = [''a'', ''b'', ''c''],
                   snap_edges = [(''a'', ''b''), (''b'', ''a'')] \<rparr>"

section \<open>Properties of the api client\<close>

text \<open>
  C10. \<open>triggerAssessment\<close> sends one request, and the payload it sends holds \<open>client_id\<close>
  and \<open>client_secret\<close> if and only if both the \<open>clientId\<close> and the \<open>clientSecret\<close> argument
  are provided and non-empty. When they are, the payload is the tenant, the subscription and
  the two credentials; otherwise neither field is sent and the payload is the
  credential-free one, also when exactly one of the two was supplied.
\<close>

theorem triggerAssessment_credentials_iff:
  fixes stringify toString :: "json \<Rightarrow> string"
    and fetch :: "request \<Rightarrow> exn + response"
    and env clientId clientSecret :: "string option"
    and tenantId subscriptionId :: string
  defines "sent \<equiv> snd (triggerAssessment stringify toString fetch env tenantId subscriptionId
                          clientId clientSecret)"
  defines "p \<equiv> assessment_payload tenantId subscriptionId clientId clientSecret"
  defines "both \<equiv> (\<exists>c s. clientId = Some c \<and> c \<noteq> [] \<and> clientSecret = Some s \<and> s \<noteq> [])"
  shows "map req_body sent = [Some (JObj p)]
       \<and> (''client_id'' \<in> set (map fst p)) = both
       \<and> (''client_secret'' \<in> set (map fst p)) = both
       \<and> (both \<longrightarrow>
             p = [(''tenant_id'', JStr tenantId), (''subscription_id'', JStr subscriptionId),
                  (''client_id'', JStr (the clientId)), (''client_secret'', JStr (the clientSecret))])
       \<and> (\<not> both \<longrightarrow>
             p = [(''tenant_id'', JStr tenantId), (''subscription_id'', JStr subscriptionId)])"
proof -
  have sent: "map req_body sent = [Some (JObj p)]"
    unfolding sent_def p_def
    by (simp add: triggerAssessment_def fetch_and_handle_def triggerAssessment_request_def
        split: sum.splits)
  show ?thesis
  proof (cases "truthy_str clientId \<and> truthy_str clientSecret")
    case True
    then obtain c s where cs: "clientId = Some c" "c \<noteq> []" "clientSecret = Some s" "s \<noteq> []"
      by (auto simp: truthy_str_def split: option.splits)
    then have "both" by (simp add: both_def)
    moreover have "p = [(''tenant_id'', JStr tenantId), (''subscription_id'', JStr subscriptionId),
                        (''client_id'', JStr c), (''client_secret'', JStr s)]"
      using cs by (simp add: p_def assessment_payload_def truthy_str_def)
    ultimately show ?thesis
      using cs sent by simp
  next
    case False
    then have nb: "\<not> both"
      by (auto simp: both_def truthy_str_def)
    have "p = [(''tenant_id'', JStr tenantId), (''subscription_id'', JStr subscriptionId)]"
      using False by (simp add: p_def assessment_payload_def)
    then show ?thesis
      using nb sent by simp
  qed
qed

text \<open>
  Three calls of \<open>triggerAssessment\<close>: with both credentials, with only the client id, and
  with an empty secret.
\<close>

theorem triggerAssessment_credentials_iff_witness:
  "map req_body (snd (triggerAssessment no_text no_text job_server None ''t'' ''s''
                        (Some ''id'') (Some ''pw'')))
     = [Some (JObj [(''tenant_id'', JStr ''t''), (''subscription_id'', JStr ''s''),
                    (''client_id'', JStr ''id''), (''client_secret'', JStr ''pw'')])]
   \<and> map req_body (snd (triggerAssessment no_text no_text job_server None ''t'' ''s''
                        (Some ''id'') None))
     = [Some (JObj [(''tenant_id'', JStr ''t''), (''subscription_id'', JStr ''s'')])]
   \<and> map req_body (snd (triggerAssessment no_text no_text job_server None ''t'' ''s''
                        (Some ''id'') (Some [])))
     = [Some (JObj [(''tenant_id'', JStr ''t''), (''subscription_id'', JStr ''s'')])]"
  using
    triggerAssessment_credentials_iff [where tenantId = "''t''" and subscriptionId = "''s''"
      and clientId = "Some ''id''" and clientSecret = "Some ''pw''" and env = None
      and fetch = job_server and stringify = no_text and toString = no_text]
    triggerAssessment_credentials_iff [where tenantId = "''t''" and subscriptionId = "''s''"
      and clientId = "Some ''id''" and clientSecret = None and env = None
      and fetch = job_server and stringify = no_text and toString = no_text]
    triggerAssessment_credentials_iff [where tenantId = "''t''" and subscriptionId = "''s''"
      and clientId = "Some ''id''" and clientSecret = "Some []" and env = None
      and fetch = job_server and stringify = no_text and toString = no_text]
  by simp

section \<open>Properties of \<open>handleResponse\<close> and the four requests\<close>







lemma fetch_and_handle_sent: "snd (fetch_and_handle stringify toString fetch rq) = [rq]"
  by (simp add: fetch_and_handle_def split: sum.splits)

lemma fetch_and_handle_ok:
  "fetch rq = Inr res \<Longrightarrow> res_ok res \<Longrightarrow> res_json res = Some v \<Longrightarrow>
   fst (fetch_and_handle stringify toString fetch rq) = Inr v"
  by (simp add: fetch_and_handle_def handleResponse_def)

text \<open>
  The claim C4 as the specification words it has exactly four operations with fixed result
  shapes. The client does not check the shape of what it returns: when the server answers a
  submitted assessment with an ok response whose body is the empty array, that array is the
  result, and it holds no job id. Besides the four operations, \<open>api\<close> has two members that
  build export URLs.
\<close>

theorem api_result_shape_counterexample:
  "array_server (triggerAssessment_request None ''t'' ''s'' None None) = Inr res_array
   \<and> res_ok res_array
   \<and> fst (triggerAssessment no_text no_text array_server None ''t'' ''s'' None None) = Inr (JArr [])
   \<and> get_prop (JArr []) ''job_id'' = None
   \<and> getExportUrl None ''j1'' = ''http://localhost:8000/api/v1/jobs/j1/export''
   \<and> getARMExportUrl None ''j1'' = ''http://localhost:8000/api/v1/jobs/j1/export/arm''"
  by (simp add: array_server_def res_array_def triggerAssessment_def fetch_and_handle_def
      handleResponse_def getExportUrl_def getARMExportUrl_def API_URL_def truthy_str_def)

text \<open>
  C4, amended. The api client has six members. Four are the operations the specification
  names, and each sends exactly one request, to its endpoint, with the arguments it was
  given: \<open>triggerAssessment\<close> posts the tenant and subscription to \<open>/api/v1/assess\<close>,
  \<open>getJobStatus\<close> gets \<open>/api/v1/jobs/<id>\<close>, \<open>triggerMigration\<close> posts the job id, the source
  group, the target group id and the resource selection to \<open>/api/v1/migrate\<close>,
  \<open>getMigrationPlan\<close> gets \<open>/api/v1/plans/<id>\<close>. When the server answers with an ok response
  whose body parses, the operation returns that body as the server sent it; the result
  shapes are declared types that the client does not check. The other two members,
  \<open>getExportUrl\<close> and \<open>getARMExportUrl\<close>, build the export URLs of a job and send no request.
\<close>

theorem api_four_operations:
  fixes fetch :: "request \<Rightarrow> exn + response"
    and env cid csecret :: "string option"
    and tenantId subscriptionId jobId sourceRg targetRgId planId :: string
    and selection :: "string list"
  defines "ta \<equiv> triggerAssessment_request env tenantId subscriptionId cid csecret"
    and "gj \<equiv> getJobStatus_request env jobId"
    and "tm \<equiv> triggerMigration_request env jobId sourceRg targetRgId selection"
    and "gp \<equiv> getMigrationPlan_request env planId"
  shows
    "snd (triggerAssessment stringify toString fetch env tenantId subscriptionId cid csecret) = [ta]
     \<and> req_url ta = API_URL env @ ''/api/v1/assess'' \<and> req_method ta = POST
     \<and> get_prop (the (req_body ta)) ''tenant_id'' = Some (JStr tenantId)
     \<and> get_prop (the (req_body ta)) ''subscription_id'' = Some (JStr subscriptionId)
     \<and> snd (getJobStatus stringify toString fetch env jobId) = [gj]
     \<and> req_url gj = API_URL env @ ''/api/v1/jobs/'' @ jobId \<and> req_method gj = GET
     \<and> snd (triggerMigration stringify toString fetch env jobId sourceRg targetRgId selection) = [tm]
     \<and> req_url tm = API_URL env @ ''/api/v1/migrate'' \<and> req_method tm = POST
     \<and> get_prop (the (req_body tm)) ''job_id'' = Some (JStr jobId)
     \<and> get_prop (the (req_body tm)) ''source_resource_group'' = Some (JStr sourceRg)
     \<and> get_prop (the (req_body tm)) ''target_resource_group_id'' = Some (JStr targetRgId)
     \<and> get_prop (the (req_body tm)) ''resources'' = Some (JArr (map JStr selection))
     \<and> snd (getMigrationPlan stringify toString fetch env planId) = [gp]
     \<and> req_url gp = API_URL env @ ''/api/v1/plans/'' @ planId \<and> req_method gp = GET
     \<and> (\<forall>res v. res_ok res \<and> res_json res = Some v \<longrightarrow>
           (fetch ta = Inr res \<longrightarrow>
              fst (triggerAssessment stringify toString fetch env tenantId subscriptionId cid csecret) = Inr v)
         \<and> (fetch gj = Inr res \<longrightarrow> fst (getJobStatus stringify toString fetch env jobId) = Inr v)
         \<and> (fetch tm = Inr res \<longrightarrow>
              fst (triggerMigration stringify toString fetch env jobId sourceRg targetRgId selection) = Inr v)
         \<and> (fetch gp = Inr res \<longrightarrow> fst (getMigrationPlan stringify toString fetch env planId) = Inr v))
     \<and> getExportUrl env jobId = API_URL env @ ''/api/v1/jobs/'' @ jobId @ ''/export''
     \<and> getARMExportUrl env jobId = API_URL env @ ''/api/v1/jobs/'' @ jobId @ ''/export/arm''"
proof -
  have urls:
    "getExportUrl env jobId = API_URL env @ ''/api/v1/jobs/'' @ jobId @ ''/export''"
    "getARMExportUrl env jobId = API_URL env @ ''/api/v1/jobs/'' @ jobId @ ''/export/arm''"
    by (simp_all add: getExportUrl_def getARMExportUrl_def)
  have sent:
    "snd (triggerAssessment stringify toString fetch env tenantId subscriptionId cid csecret) = [ta]"
    "snd (getJobStatus stringify toString fetch env jobId) = [gj]"
    "snd (triggerMigration stringify toString fetch env jobId sourceRg targetRgId selection) = [tm]"
    "snd (getMigrationPlan stringify toString fetch env planId) = [gp]"
    by (simp_all add: triggerAssessment_def getJobStatus_def triggerMigration_def
        getMigrationPlan_def fetch_and_handle_sent ta_def gj_def tm_def gp_def)
  have shape_ta:
    "req_url ta = API_URL env @ ''/api/v1/assess''" "req_method ta = POST"
    "get_prop (the (req_body ta)) ''tenant_id'' = Some (JStr tenantId)"
    "get_prop (the (req_body ta)) ''subscription_id'' = Some (JStr subscriptionId)"
    by (simp_all add: ta_def triggerAssessment_request_def assessment_payload_def)
  have shape_gj: "req_url gj = API_URL env @ ''/api/v1/jobs/'' @ jobId" "req_method gj = GET"
    by (simp_all add: gj_def getJobStatus_request_def)
  have shape_tm:
    "req_url tm = API_URL env @ ''/api/v1/migrate''" "req_method tm = POST"
    "get_prop (the (req_body tm)) ''job_id'' = Some (JStr jobId)"
    "get_prop (the (req_body tm)) ''source_resource_group'' = Some (JStr sourceRg)"
    "get_prop (the (req_body tm)) ''target_resource_group_id'' = Some (JStr targetRgId)"
    "get_prop (the (req_body tm)) ''resources'' = Some (JArr (map JStr selection))"
    by (simp_all add: tm_def triggerMigration_request_def)
  have shape_gp: "req_url gp = API_URL env @ ''/api/v1/plans/'' @ planId" "req_method gp = GET"
    by (simp_all add: gp_def getMigrationPlan_request_def)
  have passes: "\<forall>res v. res_ok res \<and> res_json res = Some v \<longrightarrow>
           (fetch ta = Inr res \<longrightarrow>
              fst (triggerAssessment stringify toString fetch env tenantId subscriptionId cid csecret) = Inr v)
         \<and> (fetch gj = Inr res \<longrightarrow> fst (getJobStatus stringify toString fetch env jobId) = Inr v)
         \<and> (fetch tm = Inr res \<longrightarrow>
              fst (triggerMigration stringify toString fetch env jobId sourceRg targetRgId selection) = Inr v)
         \<and> (fetch gp = Inr res \<longrightarrow> fst (getMigrationPlan stringify toString fetch env planId) = Inr v)"
    unfolding triggerAssessment_def getJobStatus_def triggerMigration_def getMigrationPlan_def
      ta_def gj_def tm_def gp_def
    by (intro allI impI conjI) (simp_all add: fetch_and_handle_ok)
  show ?thesis
    by (rule conjI sent shape_ta shape_gj shape_tm shape_gp passes urls)+
qed

text \<open>Submitting an assessment to a server that answers with a job id.\<close>

theorem api_four_operations_witness:
  "triggerAssessment no_text no_text job_server None ''t'' ''s'' None None
     = (Inr (JObj [(''job_id'', JStr ''j1'')]),
        [\<lparr> req_url = ''http://localhost:8000/api/v1/assess'', req_method = POST,
           req_headers = [(''Content-Type'', ''application/json'')],
           req_body = Some (JObj [(''tenant_id'', JStr ''t''), (''subscription_id'', JStr ''s'')]) \<rparr>])"
proof -
  have ok: "res_ok res_job \<and> res_json res_job = Some (JObj [(''job_id'', JStr ''j1'')])"
    by (simp add: res_job_def)
  have srv: "job_server (triggerAssessment_request None ''t'' ''s'' None None) = Inr res_job"
    by (simp add: job_server_def)
  have rq: "triggerAssessment_request None ''t'' ''s'' None None
     = \<lparr> req_url = ''http://localhost:8000/api/v1/assess'', req_method = POST,
           req_headers = [(''Content-Type'', ''application/json'')],
           req_body = Some (JObj [(''tenant_id'', JStr ''t''), (''subscription_id'', JStr ''s'')]) \<rparr>"
    by (simp add: triggerAssessment_request_def assessment_payload_def API_URL_def truthy_str_def)
  have "snd (triggerAssessment no_text no_text job_server None ''t'' ''s'' None None)
          = [triggerAssessment_request None ''t'' ''s'' None None]
      \<and> fst (triggerAssessment no_text no_text job_server None ''t'' ''s'' None None)
          = Inr (JObj [(''job_id'', JStr ''j1'')])"
    using ok srv
      api_four_operations [where fetch = job_server and env = None and tenantId = "''t''"
        and subscriptionId = "''s''" and cid = None and csecret = None
        and stringify = no_text and toString = no_text]
    by blast
  then show ?thesis
    unfolding rq by (simp add: prod_eq_iff)
qed

section \<open>Properties of the inventory table and the job page\<close>

lemma renderStatus_Yes_iff:
  "renderStatus lower bm res = Yes
     \<longleftrightarrow> (map_of bm (r_id res) = None \<or> map_of bm (r_id res) = Some [])"
  by (simp add: renderStatus_def isBlocked_def blockersList_def split: option.splits)

text \<open>
  C1 holds for the table: \<open>renderStatus_Yes_iff\<close>. It does not hold for the counter of the
  job page. For the job whose blocker map holds its only resource with an empty reason
  list, the table shows "Yes" and one resource is movable, but "Attention Needed" is 1 and
  "Ready to Move" is 0.
\<close>

theorem readyCount_empty_entry:
  "map_of (the (blockers job_empty_entry)) (r_id vnet) = Some []
   \<and> InventoryTable lower_ascii job_empty_entry = [Yes]
   \<and> spec_ready_count job_empty_entry = 1
   \<and> blockersCount job_empty_entry = 1
   \<and> readyCount job_empty_entry = 0"
  by code_simp






section \<open>Properties of the login page\<close>

lemma upsert_Cons:
  "(case findIndex P (x # xs) of Some i \<Rightarrow> (x # xs)[i := n] | None \<Rightarrow> (x # xs) @ [n])
     = (if P x then n # xs
        else x # (case findIndex P xs of Some i \<Rightarrow> xs[i := n] | None \<Rightarrow> xs @ [n]))"
  by (simp split: option.splits)

lemma upsert_other:
  "P n \<Longrightarrow>
   filter (\<lambda>l. \<not> P l) (case findIndex P xs of Some i \<Rightarrow> xs[i := n] | None \<Rightarrow> xs @ [n])
     = filter (\<lambda>l. \<not> P l) xs"
proof (induction xs)
  case Nil
  then show ?case by simp
next
  case (Cons x xs)
  then show ?case unfolding upsert_Cons by simp
qed

lemma upsert_same:
  assumes "P n" and "\<And>a b. a \<in> set xs \<Longrightarrow> b \<in> set xs \<Longrightarrow> P a \<Longrightarrow> P b \<Longrightarrow> a = b"
    and "distinct xs"
  shows "filter P (case findIndex P xs of Some i \<Rightarrow> xs[i := n] | None \<Rightarrow> xs @ [n]) = [n]"
  using assms(2,3)
proof (induction xs)
  case Nil
  then show ?case using assms(1) by simp
next
  case (Cons x xs)
  show ?case
  proof (cases "P x")
    case True
    have "\<not> P y" if "y \<in> set xs" for y
      using Cons.prems(1) [of x y] Cons.prems(2) that True by auto
    then have "filter P xs = []" by (simp add: filter_empty_conv)
    then show ?thesis unfolding upsert_Cons using True assms(1) by simp
  next
    case False
    have "filter P (case findIndex P xs of Some i \<Rightarrow> xs[i := n] | None \<Rightarrow> xs @ [n]) = [n]"
      using Cons.IH Cons.prems by simp
    then show ?thesis unfolding upsert_Cons using False by simp
  qed
qed

lemma upsert_aliases:
  "map g (case findIndex (\<lambda>l. g l = g n) xs of Some i \<Rightarrow> xs[i := n] | None \<Rightarrow> xs @ [n])
     = (if g n \<in> set (map g xs) then map g xs else map g xs @ [g n])"
proof (induction xs)
  case Nil
  then show ?case by simp
next
  case (Cons x xs)
  then show ?case unfolding upsert_Cons by auto
qed

text \<open>
  C9. From a saved-logins list with pairwise distinct aliases, \<open>handleConnect\<close> with an alias
  that is not blank after trimming yields a list whose aliases are still pairwise distinct,
  whose only entry under the trimmed alias is the login built from the current form values,
  and whose entries under every other alias are the old ones, in the old order; the same
  list is written to local storage. With an alias that trims to the empty string the list is
  returned as it was and nothing is stored.
\<close>

theorem handleConnect_saved_logins:
  assumes "distinct (map sl_alias savedLogins)"
  shows "(trim (f_alias f) \<noteq> [] \<longrightarrow>
           distinct (map sl_alias (cr_savedLogins (handleConnect trim enc f savedLogins)))
         \<and> filter (\<lambda>l. sl_alias l = trim (f_alias f))
                  (cr_savedLogins (handleConnect trim enc f savedLogins))
             = [\<lparr> sl_alias = trim (f_alias f), sl_tenantId = f_tenantId f, sl_subId = f_subId f,
                  sl_mode = f_loginMode f, sl_clientId = Some (f_clientId f),
                  sl_clientSecret = Some (f_clientSecret f) \<rparr>]
         \<and> filter (\<lambda>l. sl_alias l \<noteq> trim (f_alias f))
                  (cr_savedLogins (handleConnect trim enc f savedLogins))
             = filter (\<lambda>l. sl_alias l \<noteq> trim (f_alias f)) savedLogins
         \<and> cr_stored (handleConnect trim enc f savedLogins)
             = Some (cr_savedLogins (handleConnect trim enc f savedLogins)))
       \<and> (trim (f_alias f) = [] \<longrightarrow>
           cr_savedLogins (handleConnect trim enc f savedLogins) = savedLogins
         \<and> cr_stored (handleConnect trim enc f savedLogins) = None)"
proof -
  let ?n = "newLogin trim f"
  let ?P = "\<lambda>l. sl_alias l = sl_alias ?n"
  have a: "sl_alias ?n = trim (f_alias f)" by (simp add: newLogin_def)
  have d: "distinct savedLogins" using assms by (simp add: distinct_map)
  have u: "x = y" if "x \<in> set savedLogins" "y \<in> set savedLogins" "?P x" "?P y" for x y
    using assms that by (metis distinct_map inj_onD)
  have same: "filter ?P (updatedLogins trim f savedLogins) = [?n]"
    unfolding updatedLogins_def by (rule upsert_same [of ?P, OF _ u d]) simp_all
  have other: "filter (\<lambda>l. \<not> ?P l) (updatedLogins trim f savedLogins)
                 = filter (\<lambda>l. \<not> ?P l) savedLogins"
    unfolding updatedLogins_def by (rule upsert_other) simp
  have al: "map sl_alias (updatedLogins trim f savedLogins)
              = (if sl_alias ?n \<in> set (map sl_alias savedLogins) then map sl_alias savedLogins
                 else map sl_alias savedLogins @ [sl_alias ?n])"
    unfolding updatedLogins_def by (rule upsert_aliases)
  have dist: "distinct (map sl_alias (updatedLogins trim f savedLogins))"
    unfolding al using assms by simp
  have blank: "trim (f_alias f) = [] \<longrightarrow>
           cr_savedLogins (handleConnect trim enc f savedLogins) = savedLogins
         \<and> cr_stored (handleConnect trim enc f savedLogins) = None"
    by (simp add: handleConnect_def Let_def)
  have saved: "trim (f_alias f) \<noteq> [] \<longrightarrow>
           distinct (map sl_alias (cr_savedLogins (handleConnect trim enc f savedLogins)))
         \<and> filter (\<lambda>l. sl_alias l = trim (f_alias f))
                  (cr_savedLogins (handleConnect trim enc f savedLogins))
             = [\<lparr> sl_alias = trim (f_alias f), sl_tenantId = f_tenantId f, sl_subId = f_subId f,
                  sl_mode = f_loginMode f, sl_clientId = Some (f_clientId f),
                  sl_clientSecret = Some (f_clientSecret f) \<rparr>]
         \<and> filter (\<lambda>l. sl_alias l \<noteq> trim (f_alias f))
                  (cr_savedLogins (handleConnect trim enc f savedLogins))
             = filter (\<lambda>l. sl_alias l \<noteq> trim (f_alias f)) savedLogins
         \<and> cr_stored (handleConnect trim enc f savedLogins)
             = Some (cr_savedLogins (handleConnect trim enc f savedLogins))"
    using same other dist unfolding a by (simp add: handleConnect_def Let_def newLogin_def)
  from saved blank show ?thesis by (rule conjI)
qed


text \<open>
  Saving the form under the alias \<open>prod\<close> (typed with surrounding spaces) over a list that
  already holds \<open>prod\<close> and \<open>dev\<close>, and submitting with a blank alias.
\<close>

theorem handleConnect_saved_logins_witness:
  "distinct (map sl_alias demo_saved)
   \<and> cr_savedLogins (handleConnect trim_spaces id demo_form demo_saved)
       = [\<lparr> sl_alias = ''dev'', sl_tenantId = ''t0'', sl_subId = ''s0'', sl_mode = Auto,
            sl_clientId = None, sl_clientSecret = None \<rparr>,
          \<lparr> sl_alias = ''prod'', sl_tenantId = ''t1'', sl_subId = ''s1'', sl_mode = Explicit,
            sl_clientId = Some ''app'', sl_clientSecret = Some ''pw'' \<rparr>]
   \<and> distinct (map sl_alias (cr_savedLogins (handleConnect trim_spaces id demo_form demo_saved)))
   \<and> cr_savedLogins (handleConnect trim_spaces id (demo_form\<lparr>f_alias := ''  ''\<rparr>) demo_saved)
       = demo_saved"
proof -
  have d: "distinct (map sl_alias demo_saved)"
    by (simp add: demo_saved_def)
  have t: "trim_spaces (f_alias demo_form) \<noteq> []"
    by (simp add: demo_form_def trim_spaces_def)
  have b: "trim_spaces (f_alias (demo_form\<lparr>f_alias := ''  ''\<rparr>)) = []"
    by (simp add: trim_spaces_def)
  have c: "cr_savedLogins (handleConnect trim_spaces id demo_form demo_saved)
       = [\<lparr> sl_alias = ''dev'', sl_tenantId = ''t0'', sl_subId = ''s0'', sl_mode = Auto,
            sl_clientId = None, sl_clientSecret = None \<rparr>,
          \<lparr> sl_alias = ''prod'', sl_tenantId = ''t1'', sl_subId = ''s1'', sl_mode = Explicit,
            sl_clientId = Some ''app'', sl_clientSecret = Some ''pw'' \<rparr>]"
    by (simp add: handleConnect_def updatedLogins_def newLogin_def demo_form_def demo_saved_def
        trim_spaces_def Let_def)
  show ?thesis
    using handleConnect_saved_logins [OF d, of trim_spaces demo_form id]
      handleConnect_saved_logins [OF d, of trim_spaces "demo_form\<lparr>f_alias := ''  ''\<rparr>" id]
      d t b c
    by simp
qed

text \<open>
  C8. In \<open>auto\<close> mode the URL that \<open>handleConnect\<close> pushes carries the empty string for
  \<open>clientId\<close> and \<open>clientSecret\<close>, so two runs that differ only in what was typed into these
  two fields push the same URL; in \<open>explicit\<close> mode the typed client id and secret are the
  values of these two parameters.
\<close>

theorem handleConnect_auto_hides_credentials:
  "cr_pushed (handleConnect trim enc (f\<lparr>f_loginMode := Auto, f_clientId := c, f_clientSecret := s\<rparr>) sl)
     = cr_pushed (handleConnect trim enc (f\<lparr>f_loginMode := Auto, f_clientId := c', f_clientSecret := s'\<rparr>) sl)
   \<and> map_of (connect_params (f\<lparr>f_loginMode := Auto\<rparr>)) ''clientId'' = Some []
   \<and> map_of (connect_params (f\<lparr>f_loginMode := Auto\<rparr>)) ''clientSecret'' = Some []
   \<and> map_of (connect_params (f\<lparr>f_loginMode := Explicit\<rparr>)) ''clientId'' = Some (f_clientId f)
   \<and> map_of (connect_params (f\<lparr>f_loginMode := Explicit\<rparr>)) ''clientSecret'' = Some (f_clientSecret f)
   \<and> cr_pushed (handleConnect trim enc f sl)
       = ''/dashboard?'' @ URLSearchParams_toString enc (connect_params f)"
  by (simp add: handleConnect_def connect_params_def Let_def)



section \<open>Properties of the plan compiler\<close>

lemma ready_subset: "set (ready es remaining) \<subseteq> set remaining"
  by (auto simp: ready_def)

lemma in_degree_zero_iff:
  "in_degree es remaining n = 0 \<longleftrightarrow> (\<forall>f. (f, n) \<in> set es \<longrightarrow> f \<notin> set remaining)"
  by (auto simp: in_degree_def filter_empty_conv)

lemma in_set_ready:
  "n \<in> set (ready es remaining)
     \<longleftrightarrow> n \<in> set remaining \<and> (\<forall>f. (f, n) \<in> set es \<longrightarrow> f \<notin> set remaining)"
  by (auto simp: ready_def in_degree_zero_iff)

lemma leveling_stop: "ready es remaining = [] \<Longrightarrow> leveling es remaining = ([], remaining)"
  by (simp add: leveling.simps [of es remaining])

lemma leveling_step:
  "ready es remaining \<noteq> [] \<Longrightarrow>
   leveling es (filter (\<lambda>n. n \<notin> set (ready es remaining)) remaining) = (bs, u) \<Longrightarrow>
   leveling es remaining = (sort (ready es remaining) # bs, u)"
  by (simp add: leveling.simps [of es remaining])

lemma leveling_induct' [consumes 1, case_names stop step]:
  assumes "leveling es remaining = (bs, u)"
    and "\<And>remaining. ready es remaining = [] \<Longrightarrow> P remaining [] remaining"
    and "\<And>remaining bs u. ready es remaining \<noteq> [] \<Longrightarrow>
           leveling es (filter (\<lambda>n. n \<notin> set (ready es remaining)) remaining) = (bs, u) \<Longrightarrow>
           P (filter (\<lambda>n. n \<notin> set (ready es remaining)) remaining) bs u \<Longrightarrow>
           P remaining (sort (ready es remaining) # bs) u"
  shows "P remaining bs u"
  using assms
proof (induction es remaining arbitrary: bs u rule: leveling.induct)
  case (1 es remaining)
  show ?case
  proof (cases "ready es remaining = []")
    case True
    have "bs = []" "u = remaining"
      using leveling_stop [OF True] "1.prems"(1) by simp_all
    then show ?thesis
      using "1.prems"(2) [OF True] by simp
  next
    case False
    obtain bs' u' where r: "leveling es (filter (\<lambda>n. n \<notin> set (ready es remaining)) remaining) = (bs', u')"
      by (cases "leveling es (filter (\<lambda>n. n \<notin> set (ready es remaining)) remaining)")
    have eq: "bs = sort (ready es remaining) # bs'" "u = u'"
      using leveling_step [OF False r] "1.prems"(1) by simp_all
    have "P (filter (\<lambda>n. n \<notin> set (ready es remaining)) remaining) bs' u'"
      using "1.IH" [OF False r] "1.prems"(2,3) by blast
    then show ?thesis
      using "1.prems"(3) [OF False r] eq by simp
  qed
qed

lemma leveling_partition:
  "leveling es remaining = (bs, u) \<Longrightarrow>
   set (concat bs) \<union> set u = set remaining \<and> set (concat bs) \<inter> set u = {}"
proof (induction rule: leveling_induct')
  case (stop remaining)
  then show ?case by simp
next
  case (step remaining bs u)
  then show ?case using ready_subset [of es remaining] by auto
qed

lemma leveling_distinct:
  "leveling es remaining = (bs, u) \<Longrightarrow> distinct remaining \<longrightarrow> distinct (concat bs)"
proof (induction rule: leveling_induct')
  case (stop remaining)
  then show ?case by simp
next
  case (step remaining bs u)
  have "set (concat bs) \<subseteq> set (filter (\<lambda>n. n \<notin> set (ready es remaining)) remaining)"
    using leveling_partition [OF step.hyps(2)] by blast
  then have "set (ready es remaining) \<inter> set (concat bs) = {}" by auto
  moreover have "distinct remaining \<longrightarrow> distinct (ready es remaining)"
    by (simp add: ready_def)
  ultimately show ?case using step.IH by auto
qed

lemma leveling_batches:
  "leveling es remaining = (bs, u) \<Longrightarrow> \<forall>b \<in> set bs. sorted b \<and> b \<noteq> []"
proof (induction rule: leveling_induct')
  case (stop remaining)
  then show ?case by simp
next
  case (step remaining bs u)
  have "sort (ready es remaining) \<noteq> []"
    using step.hyps(1) by (metis length_sort length_0_conv)
  then show ?case using step.IH by simp
qed

lemma leveling_first:
  assumes "leveling es remaining = (bs, u)"
  shows "(bs = [] \<longleftrightarrow> ready es remaining = []) \<and> (bs \<noteq> [] \<longrightarrow> bs ! 0 = sort (ready es remaining))"
proof (cases "ready es remaining = []")
  case True
  then show ?thesis using assms by (simp add: leveling_stop)
next
  case False
  obtain bs' u' where r: "leveling es (filter (\<lambda>n. n \<notin> set (ready es remaining)) remaining) = (bs', u')"
    by (cases "leveling es (filter (\<lambda>n. n \<notin> set (ready es remaining)) remaining)")
  show ?thesis using leveling_step [OF False r] assms False by auto
qed

lemma batch_of_Cons:
  "batch_of (b # bs) x = (if x \<in> set b then 0 else Suc (batch_of bs x))"
  by (simp add: batch_of_def)

lemma batch_of_le: "batch_of bs x \<le> length bs"
  by (simp add: batch_of_def length_takeWhile_le)

lemma batch_of_less_iff: "batch_of bs x < length bs \<longleftrightarrow> x \<in> set (concat bs)"
  by (induction bs) (auto simp: batch_of_Cons)

lemma batch_of_nth: "x \<in> set (concat bs) \<Longrightarrow> x \<in> set (bs ! batch_of bs x)"
  by (induction bs) (auto simp: batch_of_Cons)

lemma batch_of_unique:
  "distinct (concat bs) \<Longrightarrow> i < length bs \<Longrightarrow> x \<in> set (bs ! i) \<Longrightarrow> batch_of bs x = i"
proof (induction bs arbitrary: i)
  case Nil
  then show ?case by simp
next
  case (Cons b bs)
  show ?case
  proof (cases i)
    case 0
    then show ?thesis using Cons.prems by (simp add: batch_of_Cons)
  next
    case (Suc k)
    then have k: "k < length bs" "x \<in> set (bs ! k)" using Cons.prems by simp_all
    then have "bs ! k \<in> set bs" by simp
    with k have "x \<in> set (concat bs)" by auto
    then have "x \<notin> set b" using Cons.prems(1) by auto
    moreover have "batch_of bs x = k" using Cons.IH k Cons.prems(1) by simp
    ultimately show ?thesis using Suc by (simp add: batch_of_Cons)
  qed
qed

lemma leveling_order:
  "leveling es remaining = (bs, u) \<Longrightarrow>
   \<forall>f t. (f, t) \<in> set es \<and> f \<in> set remaining \<and> t \<in> set (concat bs)
          \<longrightarrow> batch_of bs f < batch_of bs t"
proof (induction rule: leveling_induct')
  case (stop remaining)
  then show ?case by simp
next
  case (step remaining bs u)
  let ?R = "ready es remaining"
  let ?rem' = "filter (\<lambda>n. n \<notin> set ?R) remaining"
  have sub: "set (concat bs) \<subseteq> set ?rem'"
    using leveling_partition [OF step.hyps(2)] by blast
  show ?case
  proof (intro allI impI, elim conjE)
    fix f t
    assume e: "(f, t) \<in> set es" and f: "f \<in> set remaining"
      and t: "t \<in> set (concat (sort ?R # bs))"
    have tR: "t \<notin> set ?R" using e f by (auto simp: in_set_ready)
    then have t': "t \<in> set (concat bs)" using t by simp
    show "batch_of (sort ?R # bs) f < batch_of (sort ?R # bs) t"
    proof (cases "f \<in> set ?R")
      case True
      then show ?thesis using tR by (simp add: batch_of_Cons)
    next
      case False
      then have "f \<in> set ?rem'" using f by simp
      then have "batch_of bs f < batch_of bs t" using step.IH e t' by blast
      then show ?thesis using False tR by (simp add: batch_of_Cons)
    qed
  qed
qed

lemma leveling_greedy:
  "leveling es remaining = (bs, u) \<Longrightarrow>
   \<forall>j x. Suc j < length bs \<and> x \<in> set (bs ! Suc j) \<longrightarrow> (\<exists>f \<in> set (bs ! j). (f, x) \<in> set es)"
proof (induction rule: leveling_induct')
  case (stop remaining)
  then show ?case by simp
next
  case (step remaining bs u)
  let ?R = "ready es remaining"
  let ?rem' = "filter (\<lambda>n. n \<notin> set ?R) remaining"
  show ?case
  proof (intro allI impI, elim conjE)
    fix j x
    assume j: "Suc j < length (sort ?R # bs)" and x: "x \<in> set ((sort ?R # bs) ! Suc j)"
    then have jl: "j < length bs" and xj: "x \<in> set (bs ! j)" by simp_all
    show "\<exists>f \<in> set ((sort ?R # bs) ! j). (f, x) \<in> set es"
    proof (cases j)
      case 0
      have "bs \<noteq> []" using jl by auto
      then have "bs ! 0 = sort (ready es ?rem')"
        using leveling_first [OF step.hyps(2)] by simp
      then have xr: "x \<in> set (ready es ?rem')" using xj 0 by simp
      then have x1: "x \<in> set remaining" "x \<notin> set ?R"
        and x2: "\<forall>f. (f, x) \<in> set es \<longrightarrow> f \<notin> set ?rem'"
        by (auto simp: in_set_ready [of x es ?rem'])
      from x1 obtain f where "(f, x) \<in> set es" "f \<in> set remaining"
        by (auto simp: in_set_ready [of x es remaining])
      moreover from this x2 have "f \<in> set ?R" by auto
      ultimately show ?thesis using 0 by auto
    next
      case (Suc k)
      then have "\<exists>f \<in> set (bs ! k). (f, x) \<in> set es"
        using step.IH jl xj by blast
      then show ?thesis using Suc by simp
    qed
  qed
qed

lemma leveling_no_cycle:
  assumes "leveling es remaining = (bs, [])"
    and "(a, b) \<in> (set es \<inter> set remaining \<times> set remaining)\<^sup>+"
  shows "batch_of bs a < batch_of bs b"
  using assms(2)
proof (induction rule: trancl.induct)
  case (r_into_trancl a b)
  have "set (concat bs) = set remaining"
    using leveling_partition [OF assms(1)] by simp
  then show ?case using leveling_order [OF assms(1)] r_into_trancl by auto
next
  case (trancl_into_trancl a b c)
  have "set (concat bs) = set remaining"
    using leveling_partition [OF assms(1)] by simp
  then have "batch_of bs b < batch_of bs c"
    using leveling_order [OF assms(1)] trancl_into_trancl.hyps(2) by auto
  then show ?case using trancl_into_trancl.IH by simp
qed


lemma restrict_edges_subset:
  "set (restrict_edges es sel) \<subseteq> set sel \<times> set sel"
  by (auto simp: restrict_edges_def)

lemma compile_InrD:
  assumes "compile jid snap selection target validateRelocation = Inr plan"
  shows "leveling (restrict_edges (snap_edges snap) selection) (remdups selection)
           = (ordered_batches plan, [])
         \<and> p_status plan = VALIDATED \<and> p_job_id plan = jid
         \<and> set selection \<subseteq> set (snap_resources snap)
         \<and> validateRelocation (concat (ordered_batches plan)) target = Accept"
proof -
  obtain bs u where l: "leveling (restrict_edges (snap_edges snap) selection) (remdups selection) = (bs, u)"
    by (cases "leveling (restrict_edges (snap_edges snap) selection) (remdups selection)")
  show ?thesis
    using assms l
    by (auto simp: compile_def split: if_splits validation.splits)
qed

text \<open>
  C5. Every plan that \<open>compile\<close> creates holds each selected resource in exactly one batch,
  and its batches are a leveling of the dependency graph restricted to the selection: an
  edge of the restricted graph leads from a batch to a strictly later one, so no resource of
  batch K depends on a resource of batch K or later. The leveling is greedy: a resource
  without a dependency in the restricted graph is in batch 0, and every resource of a later
  batch depends on a resource of the batch just before, so no resource could be placed
  earlier. Each batch is non-empty and in the order of the ids, and the plan is \<open>VALIDATED\<close>.
\<close>

theorem compile_batches_leveling:
  assumes "compile jid snap selection target validateRelocation = Inr plan"
  shows "set (concat (ordered_batches plan)) = set selection
       \<and> distinct (concat (ordered_batches plan))
       \<and> (\<forall>f t i j. (f, t) \<in> set (restrict_edges (snap_edges snap) selection)
             \<and> i < length (ordered_batches plan) \<and> j < length (ordered_batches plan)
             \<and> f \<in> set (ordered_batches plan ! i) \<and> t \<in> set (ordered_batches plan ! j)
             \<longrightarrow> i < j)
       \<and> (\<forall>j x. Suc j < length (ordered_batches plan) \<and> x \<in> set (ordered_batches plan ! Suc j)
             \<longrightarrow> (\<exists>f \<in> set (ordered_batches plan ! j).
                    (f, x) \<in> set (restrict_edges (snap_edges snap) selection)))
       \<and> (\<forall>x \<in> set selection.
             (\<forall>f. (f, x) \<notin> set (restrict_edges (snap_edges snap) selection))
             \<longrightarrow> x \<in> set (ordered_batches plan ! 0))
       \<and> (\<forall>b \<in> set (ordered_batches plan). sorted b \<and> b \<noteq> [])
       \<and> p_status plan = VALIDATED"
proof -
  let ?es = "restrict_edges (snap_edges snap) selection"
  let ?bs = "ordered_batches plan"
  have l: "leveling ?es (remdups selection) = (?bs, [])" and st: "p_status plan = VALIDATED"
    using compile_InrD [OF assms] by simp_all
  have cover: "set (concat ?bs) = set selection"
    using leveling_partition [OF l] by simp
  have dist: "distinct (concat ?bs)"
    using leveling_distinct [OF l] by simp
  have order: "\<forall>f t i j. (f, t) \<in> set ?es \<and> i < length ?bs \<and> j < length ?bs
             \<and> f \<in> set (?bs ! i) \<and> t \<in> set (?bs ! j) \<longrightarrow> i < j"
  proof (intro allI impI, elim conjE)
    fix f t i j
    assume e: "(f, t) \<in> set ?es" and i: "i < length ?bs" and j: "j < length ?bs"
      and f: "f \<in> set (?bs ! i)" and t: "t \<in> set (?bs ! j)"
    have "f \<in> set (remdups selection)" "t \<in> set (concat ?bs)"
      using e restrict_edges_subset [of "snap_edges snap" selection] cover by auto
    then have "batch_of ?bs f < batch_of ?bs t"
      using leveling_order [OF l] e by blast
    then show "i < j"
      using batch_of_unique [OF dist i f] batch_of_unique [OF dist j t] by simp
  qed
  have greedy: "\<forall>j x. Suc j < length ?bs \<and> x \<in> set (?bs ! Suc j)
             \<longrightarrow> (\<exists>f \<in> set (?bs ! j). (f, x) \<in> set ?es)"
    by (rule leveling_greedy [OF l])
  have first: "\<forall>x \<in> set selection. (\<forall>f. (f, x) \<notin> set ?es) \<longrightarrow> x \<in> set (?bs ! 0)"
  proof (intro ballI impI)
    fix x
    assume x: "x \<in> set selection" and n: "\<forall>f. (f, x) \<notin> set ?es"
    then have r: "x \<in> set (ready ?es (remdups selection))"
      by (simp add: in_set_ready)
    then have "ready ?es (remdups selection) \<noteq> []" by auto
    then have "?bs ! 0 = sort (ready ?es (remdups selection))"
      using leveling_first [OF l] by simp
    then show "x \<in> set (?bs ! 0)" using r by simp
  qed
  have batches: "\<forall>b \<in> set ?bs. sorted b \<and> b \<noteq> []"
    by (rule leveling_batches [OF l])
  show ?thesis
    by (rule conjI cover dist order greedy first batches st)+
qed

text \<open>Scenario A: the network and the disk form batch 0, the virtual machine batch 1.\<close>

theorem compile_batches_leveling_witness:
  "compile ''j1'' snap_abc [''vm'', ''net'', ''disk''] ''target'' always_accept
     = Inr \<lparr> p_job_id = ''j1'', ordered_batches = [[''disk'', ''net''], [''vm'']],
             p_status = VALIDATED \<rparr>
   \<and> set (concat (ordered_batches \<lparr> p_job_id = ''j1'',
          ordered_batches = [[''disk'', ''net''], [''vm'']], p_status = VALIDATED \<rparr>))
       = set [''vm'', ''net'', ''disk'']"
proof -
  have c: "compile ''j1'' snap_abc [''vm'', ''net'', ''disk''] ''target'' always_accept
     = Inr \<lparr> p_job_id = ''j1'', ordered_batches = [[''disk'', ''net''], [''vm'']],
             p_status = VALIDATED \<rparr>"
    by code_simp
  from compile_batches_leveling [OF c]
  have "set (concat (ordered_batches \<lparr> p_job_id = ''j1'',
          ordered_batches = [[''disk'', ''net''], [''vm'']], p_status = VALIDATED \<rparr>))
       = set [''vm'', ''net'', ''disk'']"
    by (rule conjunct1)
  with c show ?thesis by (rule conjI)
qed

text \<open>
  C6. When the dependency graph restricted to the selection has a cycle, \<open>compile\<close> fails
  with \<open>CycleDetected\<close> and creates no plan, whatever else the selection names and whatever
  the validation would answer.
\<close>

theorem compile_cycle_detected:
  assumes "(n, n) \<in> (set (restrict_edges (snap_edges snap) selection))\<^sup>+"
  shows "compile jid snap selection target validateRelocation = Inl CycleDetected
       \<and> (\<forall>plan. compile jid snap selection target validateRelocation \<noteq> Inr plan)"
proof -
  let ?es = "restrict_edges (snap_edges snap) selection"
  obtain bs u where l: "leveling ?es (remdups selection) = (bs, u)"
    by (cases "leveling ?es (remdups selection)")
  have "u \<noteq> []"
  proof
    assume "u = []"
    then have l': "leveling ?es (remdups selection) = (bs, [])" using l by simp
    have "set ?es \<inter> set (remdups selection) \<times> set (remdups selection) = set ?es"
      using restrict_edges_subset [of "snap_edges snap" selection] by auto
    then have "(n, n) \<in> (set ?es \<inter> set (remdups selection) \<times> set (remdups selection))\<^sup>+"
      using assms by simp
    then have "batch_of bs n < batch_of bs n" by (rule leveling_no_cycle [OF l'])
    then show False by simp
  qed
  then show ?thesis
    using l by (simp add: compile_def)
qed

text \<open>
  Two resources, each depending on the other, selected with a third and with an id that the
  snapshot does not hold.
\<close>

theorem compile_cycle_detected_witness:
  "(''a'', ''a'') \<in> (set (restrict_edges (snap_edges snap_cyclic) [''a'', ''b'', ''c'', ''zzz'']))\<^sup>+
   \<and> compile ''j1'' snap_cyclic [''a'', ''b'', ''c'', ''zzz''] ''target'' always_accept
       = Inl CycleDetected"
proof -
  have es: "restrict_edges (snap_edges snap_cyclic) [''a'', ''b'', ''c'', ''zzz'']
              = [(''a'', ''b''), (''b'', ''a'')]"
    by (simp add: restrict_edges_def snap_cyclic_def)
  have "(''a'', ''b'') \<in> set [(''a'', ''b''), (''b'', ''a'')]"
       "(''b'', ''a'') \<in> set [(''a'', ''b''), (''b'', ''a'')]"
    by simp_all
  then have cyc: "(''a'', ''a'') \<in> (set [(''a'', ''b''), (''b'', ''a'')])\<^sup>+"
    by (rule trancl_trans [OF r_into_trancl r_into_trancl])
  then have cyc': "(''a'', ''a'')
      \<in> (set (restrict_edges (snap_edges snap_cyclic) [''a'', ''b'', ''c'', ''zzz'']))\<^sup>+"
    unfolding es .
  from compile_cycle_detected [OF cyc', of "''j1''" "''target''" always_accept]
  have "compile ''j1'' snap_cyclic [''a'', ''b'', ''c'', ''zzz''] ''target'' always_accept
          = Inl CycleDetected"
    by (rule conjunct1)
  with cyc' show ?thesis by (rule conjI)
qed

section \<open>Properties of the executor\<close>

lemma map_of_snoc:
  "map_of (xs @ [(r, oc)]) x = (case map_of xs x of Some v \<Rightarrow> Some v
                                | None \<Rightarrow> if x = r then Some oc else None)"
  by (simp add: map_add_def split: option.splits)

lemma exec_inv_init: "exec_inv bs exec_init"
  by (simp add: exec_inv_def exec_init_def)

lemma exec_inv_step:
  assumes "exec_step bs s s'" and "exec_inv bs s"
  shows "exec_inv bs s'"
  using assms
proof (induction rule: exec_step.induct)
  case (resolve s r oc)
  then show ?case
    unfolding exec_inv_def
    by (auto simp: map_of_snoc split: option.splits if_splits)
next
  case (advance s)
  have "\<forall>k < Suc (current s). \<forall>r \<in> set (bs ! k). map_of (execution_log s) r = Some MOVED"
    using advance by (auto simp: exec_inv_def less_Suc_eq)
  moreover have "\<forall>r oc. map_of (execution_log s) r = Some oc
           \<longrightarrow> (\<exists>k \<le> Suc (current s). k < length bs \<and> r \<in> set (bs ! k))"
    using advance.prems by (meson exec_inv_def le_SucI)
  ultimately show ?case
    using advance.hyps(1) by (simp add: exec_inv_def)
qed

lemma exec_inv_reachable:
  "(exec_step bs)\<^sup>*\<^sup>* s s' \<Longrightarrow> exec_inv bs s \<Longrightarrow> exec_inv bs s'"
  by (induction rule: rtranclp_induct) (auto intro: exec_inv_step)

lemma exec_step_log_mono:
  "exec_step bs s s' \<Longrightarrow> map_of (execution_log s) r = Some oc \<Longrightarrow>
   map_of (execution_log s') r = Some oc"
  by (induction rule: exec_step.induct) (simp_all add: map_of_snoc)

lemma exec_log_mono:
  "(exec_step bs)\<^sup>*\<^sup>* s s' \<Longrightarrow> map_of (execution_log s) r = Some oc \<Longrightarrow>
   map_of (execution_log s') r = Some oc"
  by (induction rule: rtranclp_induct) (auto intro: exec_step_log_mono)

lemma batch_unique:
  "distinct (concat bs) \<Longrightarrow> i < length bs \<Longrightarrow> j < length bs \<Longrightarrow>
   x \<in> set (bs ! i) \<Longrightarrow> x \<in> set (bs ! j) \<Longrightarrow> i = j"
  using batch_of_unique by metis

lemma failed_blocks_later:
  assumes inv: "exec_inv bs s" and d: "distinct (concat bs)"
    and K: "K < length bs" "r \<in> set (bs ! K)"
    and f: "map_of (execution_log s) r = Some oc" "oc \<noteq> MOVED"
    and J: "K < J" "J < length bs" "r' \<in> set (bs ! J)"
  shows "state_of bs s r' = NotAttempted"
proof -
  obtain k where k: "k \<le> current s" "k < length bs" "r \<in> set (bs ! k)"
    using inv f(1) unfolding exec_inv_def by blast
  have "k = K" using batch_unique [OF d k(2) K(1) k(3) K(2)] .
  have "\<not> K < current s"
    using inv K(2) f unfolding exec_inv_def by auto
  with k(1) \<open>k = K\<close> have cur: "current s = K" by simp
  have none: "map_of (execution_log s) r' = None"
  proof (cases "map_of (execution_log s) r'")
    case None
    then show ?thesis .
  next
    case (Some oc')
    then obtain k' where k': "k' \<le> current s" "k' < length bs" "r' \<in> set (bs ! k')"
      using inv unfolding exec_inv_def by blast
    have "k' = J" using batch_unique [OF d k'(2) J(2) k'(3) J(3)] .
    with k'(1) cur J(1) show ?thesis by simp
  qed
  have "r' \<notin> set (bs ! current s)"
    using batch_unique [OF d K(1) J(2) _ J(3)] cur J(1) by auto
  with none show ?thesis by (simp add: state_of_def)
qed

text \<open>
  C7. In every state that an execution of a plan reaches (the batches of a plan share no
  resource), if a resource of batch K is logged as failed, then every resource of a later
  batch is "not attempted": it has no outcome and has not been submitted. This stays so in
  every state the execution reaches afterwards.
\<close>

theorem failed_batch_blocks_later_batches:
  assumes "(exec_step bs)\<^sup>*\<^sup>* exec_init s"
    and "distinct (concat bs)"
    and "K < length bs" and "r \<in> set (bs ! K)"
    and "map_of (execution_log s) r = Some MOVE_FAILED"
    and "K < J" and "J < length bs" and "r' \<in> set (bs ! J)"
  shows "state_of bs s r' = NotAttempted
       \<and> (\<forall>s'. (exec_step bs)\<^sup>*\<^sup>* s s' \<longrightarrow> state_of bs s' r' = NotAttempted)"
proof -
  have inv: "exec_inv bs s"
    using exec_inv_reachable [OF assms(1) exec_inv_init] .
  have now: "state_of bs s r' = NotAttempted"
    using failed_blocks_later [OF inv assms(2-5) _ assms(6-8)] by simp
  have later: "\<forall>s'. (exec_step bs)\<^sup>*\<^sup>* s s' \<longrightarrow> state_of bs s' r' = NotAttempted"
  proof (intro allI impI)
    fix s'
    assume st: "(exec_step bs)\<^sup>*\<^sup>* s s'"
    have inv': "exec_inv bs s'" using exec_inv_reachable [OF st inv] .
    have f': "map_of (execution_log s') r = Some MOVE_FAILED"
      using exec_log_mono [OF st assms(5)] .
    show "state_of bs s' r' = NotAttempted"
      using failed_blocks_later [OF inv' assms(2-4) f' _ assms(6-8)] by simp
  qed
  from now later show ?thesis by (rule conjI)
qed

text \<open>The network of scenario A fails: the virtual machine of batch 1 is not attempted.\<close>

theorem failed_batch_blocks_later_batches_witness:
  "(exec_step [[''disk'', ''net''], [''vm'']])\<^sup>*\<^sup>* exec_init
      \<lparr> current = 0, execution_log = [(''net'', MOVE_FAILED)] \<rparr>
   \<and> state_of [[''disk'', ''net''], [''vm'']]
        \<lparr> current = 0, execution_log = [(''net'', MOVE_FAILED)] \<rparr> ''vm'' = NotAttempted"
proof -
  have "exec_step [[''disk'', ''net''], [''vm'']] exec_init
          (exec_init\<lparr>execution_log := execution_log exec_init @ [(''net'', MOVE_FAILED)]\<rparr>)"
    by (rule exec_step.resolve) (simp_all add: exec_init_def)
  then have r: "(exec_step [[''disk'', ''net''], [''vm'']])\<^sup>*\<^sup>* exec_init
      \<lparr> current = 0, execution_log = [(''net'', MOVE_FAILED)] \<rparr>"
    by (simp add: exec_init_def)
  have "state_of [[''disk'', ''net''], [''vm'']]
        \<lparr> current = 0, execution_log = [(''net'', MOVE_FAILED)] \<rparr> ''vm'' = NotAttempted"
    using failed_batch_blocks_later_batches [OF r, of 0 "''net''" 1 "''vm''"] by simp
  with r show ?thesis by (rule conjI)
qed


end
